theory Spec2Isabelle
  imports Main "HOL-Library.Word"
begin

section \<open>Strings and the case mappings of the runtime\<close>

text \<open>
  A JavaScript string is a sequence of 16-bit code units; every list of code units is a
  string. The patterns of \<^verbatim>\<open>index.js\<close> carry no \<^verbatim>\<open>u\<close> flag, so they
  read a string one code unit at a time.
\<close>

type_synonym cu = "16 word"
type_synonym jsstring = "cu list"

definition js :: "string \<Rightarrow> jsstring" where
  "js s = map of_char s"

text \<open>
  \<^verbatim>\<open>String.prototype.toUpperCase\<close> and \<^verbatim>\<open>toLowerCase\<close> belong to the
  language runtime: they follow the Unicode tables, which are no part of the repository.
  The functions of \<^verbatim>\<open>index.js\<close> take them from a record of the runtime.
\<close>

record casing =
  toUpperCase :: "jsstring \<Rightarrow> jsstring"
  toLowerCase :: "jsstring \<Rightarrow> jsstring"

subsection \<open>Character classes of the patterns\<close>

definition lower_az :: "cu \<Rightarrow> bool" where
  "lower_az c = (0x61 \<le> c \<and> c \<le> 0x7A)"

definition upper_AZ :: "cu \<Rightarrow> bool" where
  "upper_AZ c = (0x41 \<le> c \<and> c \<le> 0x5A)"

definition digit_09 :: "cu \<Rightarrow> bool" where
  "digit_09 c = (0x30 \<le> c \<and> c \<le> 0x39)"

definition alnum :: "cu \<Rightarrow> bool" where
  "alnum c = (lower_az c \<or> upper_AZ c \<or> digit_09 c)"

definition line_terminator :: "cu \<Rightarrow> bool" where
  "line_terminator c = (c = 0x0A \<or> c = 0x0D \<or> c = 0x2028 \<or> c = 0x2029)"

definition white_space :: "cu \<Rightarrow> bool" where
  "white_space c =
     (c = 0x09 \<or> c = 0x0B \<or> c = 0x0C \<or> c = 0x20 \<or> c = 0xA0 \<or> c = 0x1680
      \<or> (0x2000 \<le> c \<and> c \<le> 0x200A) \<or> c = 0x202F \<or> c = 0x205F \<or> c = 0x3000
      \<or> c = 0xFEFF \<or> line_terminator c)"

definition separator :: "cu \<Rightarrow> bool" where
  "separator c = (c = 0x2D \<or> c = 0x5F \<or> white_space c)"

definition any_char :: "cu \<Rightarrow> bool" where
  "any_char c = (\<not> line_terminator c)"

section \<open>Regular expressions\<close>

text \<open>
  The operators the four patterns of \<^verbatim>\<open>index.js\<close> are built from. A match state is
  the index reached, the input left and the groups captured. \<open>matches r s\<close> lists the
  ways \<open>r\<close> matches at \<open>s\<close> in the order the backtracking matcher of the language tries
  them: quantifiers are greedy, and an iteration of \<open>*\<close> that consumes nothing is
  given up. The first state of the list is the match that is reported.
\<close>

datatype regex =
    Cls "cu \<Rightarrow> bool"
  | Bol
  | Eol
  | Seq regex regex
  | Star regex
  | Opt regex
  | Grp nat regex

definition Plus :: "regex \<Rightarrow> regex" where
  "Plus r = Seq r (Star r)"

record mstate =
  pos :: nat
  rest :: jsstring
  caps :: "nat \<rightharpoonup> jsstring"

function (sequential) matches :: "regex \<Rightarrow> mstate \<Rightarrow> mstate list" where
  "matches (Cls p) s =
     (case rest s of
        [] \<Rightarrow> []
      | c # cs \<Rightarrow> if p c then [s\<lparr>pos := pos s + 1, rest := cs\<rparr>] else [])"
| "matches Bol s = (if pos s = 0 then [s] else [])"
| "matches Eol s = (if rest s = [] then [s] else [])"
| "matches (Seq r1 r2) s = concat (map (matches r2) (matches r1 s))"
| "matches (Star r) s =
     concat (map (\<lambda>s'. if length (rest s') < length (rest s) then matches (Star r) s' else [])
                 (matches r s)) @ [s]"
| "matches (Opt r) s = matches r s @ [s]"
| "matches (Grp n r) s =
     map (\<lambda>s'. s'\<lparr>caps := (caps s')(n \<mapsto> take (pos s' - pos s) (rest s))\<rparr>) (matches r s)"
  by pat_completeness auto
termination
  by (relation "measures [\<lambda>(r, s). size r, \<lambda>(r, s). length (rest s)]") auto

declare matches.simps(5) [simp del]

definition start :: "nat \<Rightarrow> jsstring \<Rightarrow> mstate" where
  "start i cs = \<lparr>pos = i, rest = cs, caps = Map.empty\<rparr>"

definition group :: "(nat \<rightharpoonup> jsstring) \<Rightarrow> nat \<Rightarrow> jsstring" where
  "group cps n = (case cps n of None \<Rightarrow> [] | Some g \<Rightarrow> g)"

lemma matches_extent:
  "m \<in> set (matches r s) \<Longrightarrow>
     pos s \<le> pos m \<and> pos m + length (rest m) = pos s + length (rest s)"
proof (induction r s arbitrary: m rule: matches.induct)
  case (1 p s)
  show ?case
  proof (cases "rest s")
    case Nil
    with "1.prems" show ?thesis by simp
  next
    case (Cons c cs)
    with "1.prems" have "p c" and "m = s\<lparr>pos := pos s + 1, rest := cs\<rparr>"
      by (simp_all split: if_splits)
    with Cons show ?thesis by simp
  qed
next
  case (2 s)
  then show ?case by (auto split: if_splits)
next
  case (3 s)
  then show ?case by (auto split: if_splits)
next
  case (4 r1 r2 s)
  from "4.prems" obtain s' where s': "s' \<in> set (matches r1 s)" and m: "m \<in> set (matches r2 s')"
    by auto
  from "4.IH"(1)[OF s'] "4.IH"(2)[OF s' m] show ?case by simp
next
  case (5 r s)
  show ?case
  proof (cases "m = s")
    case True
    then show ?thesis by simp
  next
    case False
    from "5.prems" have
      "m \<in> set (concat (map (\<lambda>s'. if length (rest s') < length (rest s)
                                    then matches (Star r) s' else []) (matches r s)) @ [s])"
      by (subst (asm) matches.simps(5))
    with False obtain s' where s': "s' \<in> set (matches r s)"
      and lt: "length (rest s') < length (rest s)" and m: "m \<in> set (matches (Star r) s')"
      by (auto split: if_splits)
    from "5.IH"(1)[OF s'] "5.IH"(2)[OF s' lt m] show ?thesis by simp
  qed
next
  case (6 r s)
  then show ?case by auto
next
  case (7 n r s)
  then show ?case by auto
qed

text \<open>
  \<^verbatim>\<open>RegExp.prototype.test\<close> on a pattern without the \<^verbatim>\<open>g\<close> flag: the first
  index from 0 at which the pattern matches, if any.
\<close>

fun exec_from :: "regex \<Rightarrow> nat \<Rightarrow> jsstring \<Rightarrow> mstate option" where
  "exec_from r i cs =
     (case matches r (start i cs) of
        m # _ \<Rightarrow> Some m
      | [] \<Rightarrow> (case cs of [] \<Rightarrow> None | _ # cs' \<Rightarrow> exec_from r (i + 1) cs'))"

declare exec_from.simps [simp del]

definition test :: "regex \<Rightarrow> jsstring \<Rightarrow> bool" where
  "test r str = (exec_from r 0 str \<noteq> None)"

text \<open>
  \<^verbatim>\<open>String.prototype.replace\<close> with a replacer function \<open>f\<close>, which receives the
  matched text and the groups. With the \<^verbatim>\<open>g\<close> flag every match is replaced, the
  search going on behind the match (one code unit further when the match is empty);
  without it only the first match is replaced.
\<close>

function replace_all_from ::
  "regex \<Rightarrow> (jsstring \<Rightarrow> (nat \<rightharpoonup> jsstring) \<Rightarrow> jsstring) \<Rightarrow> nat \<Rightarrow> jsstring \<Rightarrow> jsstring" where
  "replace_all_from r f i cs =
     (case matches r (start i cs) of
        [] \<Rightarrow> (case cs of [] \<Rightarrow> [] | c # cs' \<Rightarrow> c # replace_all_from r f (i + 1) cs')
      | m # _ \<Rightarrow>
          f (take (pos m - i) cs) (caps m) @
          (if pos m = i
           then (case cs of [] \<Rightarrow> [] | c # cs' \<Rightarrow> c # replace_all_from r f (i + 1) cs')
           else replace_all_from r f (pos m) (rest m)))"
  by pat_completeness auto
termination
proof (relation "measure (\<lambda>(r, f, i, cs). length cs)", goal_cases)
  case 1
  show ?case by simp
next
  case (2 r f i cs c cs')
  then show ?case by simp
next
  case (3 r f i cs m ms c cs')
  then show ?case by simp
next
  case (4 r f i cs m ms)
  then have "m \<in> set (matches r (start i cs))" by simp
  from matches_extent[OF this] 4(2) show ?case by (simp add: start_def)
qed

declare replace_all_from.simps [simp del]

definition replace_all ::
  "regex \<Rightarrow> (jsstring \<Rightarrow> (nat \<rightharpoonup> jsstring) \<Rightarrow> jsstring) \<Rightarrow> jsstring \<Rightarrow> jsstring" where
  "replace_all r f str = replace_all_from r f 0 str"

fun replace_first_from ::
  "regex \<Rightarrow> (jsstring \<Rightarrow> (nat \<rightharpoonup> jsstring) \<Rightarrow> jsstring) \<Rightarrow> nat \<Rightarrow> jsstring \<Rightarrow> jsstring" where
  "replace_first_from r f i cs =
     (case matches r (start i cs) of
        [] \<Rightarrow> (case cs of [] \<Rightarrow> [] | c # cs' \<Rightarrow> c # replace_first_from r f (i + 1) cs')
      | m # _ \<Rightarrow> f (take (pos m - i) cs) (caps m) @ rest m)"

declare replace_first_from.simps [simp del]

definition replace_first ::
  "regex \<Rightarrow> (jsstring \<Rightarrow> (nat \<rightharpoonup> jsstring) \<Rightarrow> jsstring) \<Rightarrow> jsstring \<Rightarrow> jsstring" where
  "replace_first r f str = replace_first_from r f 0 str"

section \<open>ComponentName\<close>

text \<open>The pattern \<^verbatim>\<open>/^[a-z][a-zA-Z0-9]*$/\<close> of \<^verbatim>\<open>validate\<close>.\<close>

definition camelCase_pattern :: regex where
  "camelCase_pattern = Seq Bol (Seq (Cls lower_az) (Seq (Star (Cls alnum)) Eol))"

text \<open>The pattern \<^verbatim>\<open>/[-_\s]+(.)?/g\<close> of \<^verbatim>\<open>convertToCamelCase\<close>.\<close>

definition separators_pattern :: regex where
  "separators_pattern = Seq (Plus (Cls separator)) (Opt (Grp 1 (Cls any_char)))"

text \<open>The pattern \<^verbatim>\<open>/^([A-Z])/\<close> of \<^verbatim>\<open>convertToCamelCase\<close>.\<close>

definition leading_upper_pattern :: regex where
  "leading_upper_pattern = Seq Bol (Grp 1 (Cls upper_AZ))"

text \<open>The pattern \<^verbatim>\<open>/([a-z])([A-Z])/g\<close> of \<^verbatim>\<open>toDashCase\<close>.\<close>

definition lower_upper_pattern :: regex where
  "lower_upper_pattern = Seq (Grp 1 (Cls lower_az)) (Grp 2 (Cls upper_AZ))"

text \<open>
  \<^verbatim>\<open>(_, c) => c ? c.toUpperCase() : ''\<close>: the group is undefined when it took no part
  in the match, and an empty string is falsy too.
\<close>

definition upper_of_group :: "'a casing_scheme \<Rightarrow> jsstring \<Rightarrow> (nat \<rightharpoonup> jsstring) \<Rightarrow> jsstring" where
  "upper_of_group rt whole cps =
     (case cps 1 of
        None \<Rightarrow> []
      | Some c \<Rightarrow> if c = [] then [] else toUpperCase rt c)"

definition convertToCamelCase :: "'a casing_scheme \<Rightarrow> jsstring \<Rightarrow> jsstring" where
  "convertToCamelCase rt str =
     replace_first leading_upper_pattern (\<lambda>c cps. toLowerCase rt c)
       (replace_all separators_pattern (upper_of_group rt) str)"

text \<open>The replacement text \<^verbatim>\<open>'$1-$2'\<close>.\<close>

definition dash_between_groups :: "jsstring \<Rightarrow> (nat \<rightharpoonup> jsstring) \<Rightarrow> jsstring" where
  "dash_between_groups whole cps = group cps 1 @ js ''-'' @ group cps 2"

definition toDashCase :: "'a casing_scheme \<Rightarrow> jsstring \<Rightarrow> jsstring" where
  "toDashCase rt str = toLowerCase rt (replace_all lower_upper_pattern dash_between_groups str)"

text \<open>
  The object \<^verbatim>\<open>validate\<close> returns; a property the object does not have is \<open>None\<close>.
  The name is \<open>None\<close> when the caller passes \<^verbatim>\<open>undefined\<close>, and \<^verbatim>\<open>!name\<close>
  holds of \<^verbatim>\<open>undefined\<close> and of the empty string.
\<close>

record validation =
  valid :: bool
  "value" :: "jsstring option"
  message :: "jsstring option"
  suggestion :: "jsstring option"

definition validate :: "'a casing_scheme \<Rightarrow> jsstring option \<Rightarrow> validation" where
  "validate rt name =
     (case name of
        None \<Rightarrow>
          \<lparr>valid = False, value = None,
           message = Some (js ''Component name is required''), suggestion = None\<rparr>
      | Some n \<Rightarrow>
          if n = []
          then \<lparr>valid = False, value = None,
                message = Some (js ''Component name is required''), suggestion = None\<rparr>
          else if \<not> test camelCase_pattern n
          then \<lparr>valid = False, value = None,
                message = Some (js ''Component name must be camelCase''),
                suggestion = Some (convertToCamelCase rt n)\<rparr>
          else \<lparr>valid = True, value = Some n, message = None, suggestion = None\<rparr>)"

text \<open>
  A runtime whose case mappings act on the letters a to z and A to Z only, as the
  real ones do on strings of the Basic Latin block.
\<close>

definition basic_latin :: casing where
  "basic_latin =
     \<lparr>toUpperCase = map (\<lambda>c. if lower_az c then c - 0x20 else c),
      toLowerCase = map (\<lambda>c. if upper_AZ c then c + 0x20 else c)\<rparr>"

section \<open>ComponentGenerator\<close>

text \<open>
  The rest of the runtime: the working directory, \<^verbatim>\<open>path.join\<close> and the three calls
  of \<^verbatim>\<open>fs\<close> the generator makes, over a state \<open>'w\<close> of the file system. A call
  that throws returns the message of the error (\<open>Inl\<close>) and leaves the file system as it
  was. Writes to the console change neither the file system nor the exit status and are
  left out.
\<close>

record 'w node = casing +
  cwd :: jsstring
  path_join :: "jsstring \<Rightarrow> jsstring \<Rightarrow> jsstring"
  existsSync :: "'w \<Rightarrow> jsstring \<Rightarrow> bool"
  mkdirSync :: "'w \<Rightarrow> jsstring \<Rightarrow> jsstring + 'w"
  writeFileSync :: "'w \<Rightarrow> jsstring \<Rightarrow> jsstring \<Rightarrow> jsstring + 'w"

text \<open>How a run ends: \<^verbatim>\<open>process.exit(code)\<close>, or the code runs to its end.\<close>

datatype status = Exited nat | Completed

record generator =
  componentName :: jsstring
  folderName :: jsstring
  language :: jsstring

text \<open>The constructor; the language is \<^verbatim>\<open>'ts'\<close> when the caller passes none.\<close>

definition ComponentGenerator ::
  "'a casing_scheme \<Rightarrow> jsstring \<Rightarrow> jsstring option \<Rightarrow> generator" where
  "ComponentGenerator rt ident lang =
     \<lparr>componentName = ident,
      folderName = toDashCase rt ident,
      language = (case lang of None \<Rightarrow> js ''ts'' | Some l \<Rightarrow> l)\<rparr>"

text \<open>\<^verbatim>\<open>String.prototype.trim\<close> strips white space and line terminators at both ends.\<close>

definition trim :: "jsstring \<Rightarrow> jsstring" where
  "trim str = rev (dropWhile white_space (rev (dropWhile white_space str)))"

definition generateTsContent :: "generator \<Rightarrow> jsstring" where
  \<open>generateTsContent g =
     trim
      (js ''\<newline>'' @
       js ''import { defineComponent } from "vue";\<newline>'' @
       js ''\<newline>'' @
       js ''const fs = require("fs");\<newline>'' @
       js ''const path = require("path");\<newline>'' @
       js ''\<newline>'' @
       js ''const htmlPath = path.join(__dirname, "'' @
       componentName g @
       js ''.component.html");\<newline>'' @
       js ''const htmlString = fs.readFileSync(htmlPath, { encoding: "utf8" });\<newline>'' @
       js ''const stylePath = path.join(__dirname, "'' @
       componentName g @
       js ''.component.style.html");\<newline>'' @
       js ''const styleString = fs.readFileSync(stylePath, { encoding: "utf8" });\<newline>'' @
       js ''const templateString = htmlString + styleString;\<newline>'' @
       js ''\<newline>'' @
       js ''export const '' @
       componentName g @
       js '' = defineComponent({\<newline>'' @
       js ''    props: {\<newline>'' @
       js ''        title: { type: String, default: "" },\<newline>'' @
       js ''    },\<newline>'' @
       js ''    template: templateString\<newline>'' @
       js ''});'')\<close>

definition generateJsContent :: "generator \<Rightarrow> jsstring" where
  \<open>generateJsContent g =
     trim
      (js ''\<newline>'' @
       js ''import { defineComponent } from "vue";\<newline>'' @
       js ''\<newline>'' @
       js ''const fs = require("fs");\<newline>'' @
       js ''const path = require("path");\<newline>'' @
       js ''\<newline>'' @
       js ''const htmlPath = path.join(__dirname, "'' @
       componentName g @
       js ''.component.html");\<newline>'' @
       js ''const htmlString = fs.readFileSync(htmlPath, { encoding: "utf8" });\<newline>'' @
       js ''const stylePath = path.join(__dirname, "'' @
       componentName g @
       js ''.component.style.html");\<newline>'' @
       js ''const styleString = fs.readFileSync(stylePath, { encoding: "utf8" });\<newline>'' @
       js ''const templateString = htmlString + styleString;\<newline>'' @
       js ''\<newline>'' @
       js ''export const '' @
       componentName g @
       js '' = defineComponent({\<newline>'' @
       js ''    props: {\<newline>'' @
       js ''        title: {\<newline>'' @
       js ''            type: String,\<newline>'' @
       js ''            default: ""\<newline>'' @
       js ''        }\<newline>'' @
       js ''    },\<newline>'' @
       js ''    template: templateString\<newline>'' @
       js ''});'')\<close>

definition generateHtmlContent :: "generator \<Rightarrow> jsstring" where
  "generateHtmlContent g = js ''<div>{{title}}</div>''"

definition generateStyleContent :: "generator \<Rightarrow> jsstring" where
  "generateStyleContent g = js ''<style></style>''"

record generated_file =
  file_name :: jsstring
  file_content :: jsstring

text \<open>The array \<^verbatim>\<open>files\<close> of \<^verbatim>\<open>create\<close>.\<close>

definition files :: "generator \<Rightarrow> generated_file list" where
  "files g =
     [\<lparr>file_name = componentName g @ js ''.component.'' @ language g,
       file_content =
         (if language g = js ''ts'' then generateTsContent g else generateJsContent g)\<rparr>,
      \<lparr>file_name = componentName g @ js ''.component.html'',
       file_content = generateHtmlContent g\<rparr>,
      \<lparr>file_name = componentName g @ js ''.component.style.html'',
       file_content = generateStyleContent g\<rparr>]"

text \<open>The loop over \<^verbatim>\<open>files\<close>: the first write that throws ends it.\<close>

fun write_files ::
  "('w, 'z) node_scheme \<Rightarrow> jsstring \<Rightarrow> generated_file list \<Rightarrow> 'w \<Rightarrow> (jsstring \<times> 'w) + 'w" where
  "write_files rt dir [] w = Inr w"
| "write_files rt dir (f # fs) w =
     (case writeFileSync rt w (path_join rt dir (file_name f)) (file_content f) of
        Inl err \<Rightarrow> Inl (err, w)
      | Inr w' \<Rightarrow> write_files rt dir fs w')"

text \<open>
  \<^verbatim>\<open>create\<close>: the run ends with status 1 when the directory exists, and in the
  \<^verbatim>\<open>catch\<close> block when \<^verbatim>\<open>mkdirSync\<close> or a write throws.
\<close>

definition create :: "('w, 'z) node_scheme \<Rightarrow> generator \<Rightarrow> 'w \<Rightarrow> status \<times> 'w" where
  "create rt g w =
     (let dir = path_join rt (cwd rt) (folderName g) in
      if existsSync rt w dir then (Exited 1, w)
      else
        (case mkdirSync rt w dir of
           Inl err \<Rightarrow> (Exited 1, w)
         | Inr w1 \<Rightarrow>
             (case write_files rt dir (files g) w1 of
                Inl (err, w2) \<Rightarrow> (Exited 1, w2)
              | Inr w2 \<Rightarrow> (Completed, w2))))"

section \<open>The command line\<close>

text \<open>
  The loop of \<^verbatim>\<open>parseArgs\<close> over \<^verbatim>\<open>args\<close>: \<open>a\<close> is \<^verbatim>\<open>args[i]\<close> and the
  head of \<open>others\<close>, if any, is \<^verbatim>\<open>args[i + 1]\<close>. \<open>Inl code\<close> is
  \<^verbatim>\<open>process.exit(code)\<close>.
\<close>

fun parseArgs_loop ::
  "'a casing_scheme \<Rightarrow> jsstring list \<Rightarrow> jsstring option \<Rightarrow> jsstring \<Rightarrow>
     nat + (jsstring option \<times> jsstring)" where
  "parseArgs_loop rt [] cn lang = Inr (cn, lang)"
| "parseArgs_loop rt (a # others) cn lang =
     (let following = (case others of [] \<Rightarrow> None | b # _ \<Rightarrow> Some b);
          cn' = (if a = js ''-n'' \<or> a = js ''--name'' then following else cn)
      in if a = js ''-l'' \<or> a = js ''--language''
         then (case following of
                 None \<Rightarrow> Inl 1
               | Some v \<Rightarrow>
                   (let l = toLowerCase rt v
                    in if l = js ''js'' \<or> l = js ''ts''
                       then parseArgs_loop rt others cn' l
                       else Inl 1))
         else parseArgs_loop rt others cn' lang)"

definition parseArgs ::
  "'a casing_scheme \<Rightarrow> jsstring list \<Rightarrow> nat + (jsstring option \<times> jsstring)" where
  "parseArgs rt argv = parseArgs_loop rt (drop 2 argv) None (js ''ts'')"

text \<open>
  \<^verbatim>\<open>main\<close>; \<^verbatim>\<open>!componentName\<close> and a falsy \<^verbatim>\<open>validation.suggestion\<close> are
  \<^verbatim>\<open>undefined\<close> or the empty string. After \<^verbatim>\<open>create\<close> only the console is
  written to.
\<close>

definition main :: "('w, 'z) node_scheme \<Rightarrow> jsstring list \<Rightarrow> 'w \<Rightarrow> status \<times> 'w" where
  "main rt argv w =
     (case parseArgs rt argv of
        Inl code \<Rightarrow> (Exited code, w)
      | Inr (cn, lang) \<Rightarrow>
          (case cn of
             None \<Rightarrow> (Exited 1, w)
           | Some n \<Rightarrow>
               if n = [] then (Exited 1, w)
               else
                 (let validation = validate rt (Some n)
                  in if \<not> valid validation
                     then (case suggestion validation of
                             None \<Rightarrow> (Exited 1, w)
                           | Some sg \<Rightarrow>
                               if sg = [] then (Exited 1, w)
                               else create rt (ComponentGenerator rt sg (Some lang)) w)
                     else create rt (ComponentGenerator rt n (Some lang)) w)))"

section \<open>A small file system\<close>

text \<open>
  A file system to run the generator on: the directories that exist and the files
  written, the latest last. \<^verbatim>\<open>mkdirSync\<close> throws when the path exists or its parent
  is no directory, \<^verbatim>\<open>writeFileSync\<close> when the path is a directory or its parent is
  none.
\<close>

record disk =
  dirs :: "jsstring list"
  written :: "(jsstring \<times> jsstring) list"

definition parent :: "jsstring \<Rightarrow> jsstring" where
  "parent p = rev (drop 1 (dropWhile (\<lambda>c. c \<noteq> 0x2F) (rev p)))"

definition disk_exists :: "disk \<Rightarrow> jsstring \<Rightarrow> bool" where
  "disk_exists w p = (p \<in> set (dirs w) \<or> p \<in> set (map fst (written w)))"

definition disk_mkdir :: "disk \<Rightarrow> jsstring \<Rightarrow> jsstring + disk" where
  "disk_mkdir w p =
     (if disk_exists w p then Inl (js ''EEXIST'')
      else if parent p \<notin> set (dirs w) then Inl (js ''ENOENT'')
      else Inr (w\<lparr>dirs := dirs w @ [p]\<rparr>))"

definition disk_write :: "disk \<Rightarrow> jsstring \<Rightarrow> jsstring \<Rightarrow> jsstring + disk" where
  "disk_write w p body =
     (if p \<in> set (dirs w) then Inl (js ''EISDIR'')
      else if parent p \<notin> set (dirs w) then Inl (js ''ENOENT'')
      else Inr (w\<lparr>written := filter (\<lambda>(q, _). q \<noteq> p) (written w) @ [(p, body)]\<rparr>))"

definition small_node :: "disk node" where
  "small_node =
     \<lparr>toUpperCase = toUpperCase basic_latin,
      toLowerCase = toLowerCase basic_latin,
      cwd = js ''/work'',
      path_join = (\<lambda>a b. a @ js ''/'' @ b),
      existsSync = disk_exists,
      mkdirSync = disk_mkdir,
      writeFileSync = disk_write\<rparr>"

section \<open>What the patterns match\<close>

subsection \<open>Repetition of a character class\<close>

lemma matches_Star_Cls:
  "matches (Star (Cls p)) s =
     (case rest s of
        [] \<Rightarrow> [s]
      | c # cs \<Rightarrow> if p c then matches (Star (Cls p)) (s\<lparr>pos := pos s + 1, rest := cs\<rparr>) @ [s]
                  else [s])"
  by (subst matches.simps(5)) (simp split: list.splits)

definition advance :: "nat \<Rightarrow> mstate \<Rightarrow> mstate" where
  "advance k s = s\<lparr>pos := pos s + k, rest := drop k (rest s)\<rparr>"

text \<open>Greedy: the first way \<open>[p]*\<close> matches takes the whole run of \<open>p\<close>.\<close>

lemma matches_Star_Cls_first:
  "\<exists>ms. matches (Star (Cls p)) s = advance (length (takeWhile p (rest s))) s # ms"
proof (induction "rest s" arbitrary: s)
  case Nil
  then show ?case by (subst matches_Star_Cls) (simp add: advance_def)
next
  case (Cons c cs)
  show ?case
  proof (cases "p c")
    case True
    let ?s' = "s\<lparr>pos := pos s + 1, rest := cs\<rparr>"
    from Cons.hyps(1)[of ?s'] obtain ms where
      "matches (Star (Cls p)) ?s' = advance (length (takeWhile p cs)) ?s' # ms" by auto
    with True Cons.hyps(2)[symmetric] show ?thesis
      by (subst matches_Star_Cls) (simp add: advance_def)
  next
    case False
    with Cons.hyps(2)[symmetric] show ?thesis
      by (subst matches_Star_Cls) (simp add: advance_def)
  qed
qed

text \<open>Some way of matching \<open>[p]*\<close> reaches the end of the input iff all of it is in \<open>p\<close>.\<close>

lemma matches_Star_Cls_end:
  "(\<exists>m \<in> set (matches (Star (Cls p)) s). rest m = []) = list_all p (rest s)"
proof (induction "rest s" arbitrary: s)
  case Nil
  then show ?case by (subst matches_Star_Cls) simp
next
  case (Cons c cs)
  let ?s' = "s\<lparr>pos := pos s + 1, rest := cs\<rparr>"
  from Cons.hyps(1)[of ?s'] have
    IH: "(\<exists>m \<in> set (matches (Star (Cls p)) ?s'). rest m = []) = list_all p cs" by simp
  show ?case
  proof (cases "p c")
    case True
    have "matches (Star (Cls p)) s = matches (Star (Cls p)) ?s' @ [s]"
      using True Cons.hyps(2)[symmetric] by (subst matches_Star_Cls) simp
    with IH True Cons.hyps(2)[symmetric] show ?thesis by auto
  next
    case False
    have "matches (Star (Cls p)) s = [s]"
      using False Cons.hyps(2)[symmetric] by (subst matches_Star_Cls) simp
    with False Cons.hyps(2)[symmetric] show ?thesis by simp
  qed
qed

lemma concat_map_nonempty:
  "(concat (map f xs) \<noteq> []) = (\<exists>x \<in> set xs. f x \<noteq> [])"
  by (induction xs) auto

subsection \<open>Patterns anchored at the start\<close>

lemma exec_from_Bol_later: "0 < i \<Longrightarrow> exec_from (Seq Bol r) i cs = None"
proof (induction cs arbitrary: i)
  case Nil
  then show ?case by (subst exec_from.simps) (simp add: start_def)
next
  case (Cons c cs)
  from Cons.prems Cons.IH[of "i + 1"] show ?case
    by (subst exec_from.simps) (simp add: start_def)
qed

lemma test_Bol: "test (Seq Bol r) str = (matches r (start 0 str) \<noteq> [])"
proof (cases "matches r (start 0 str)")
  case Nil
  then show ?thesis
    by (cases str) (simp_all add: test_def start_def exec_from_Bol_later exec_from.simps[of _ 0])
next
  case (Cons m ms)
  then show ?thesis by (simp add: test_def start_def exec_from.simps[of _ 0])
qed

subsection \<open>The pattern of valid names\<close>

text \<open>
  A lowercase letter, then letters and digits only: what the pattern
  \<^verbatim>\<open>^[a-z][a-zA-Z0-9]*$\<close> accepts, read off the string.
\<close>

definition camelCase_shape :: "jsstring \<Rightarrow> bool" where
  "camelCase_shape str = (case str of [] \<Rightarrow> False | c # cs \<Rightarrow> lower_az c \<and> list_all alnum cs)"

lemma test_camelCase_pattern: "test camelCase_pattern str = camelCase_shape str"
proof (cases str)
  case Nil
  then show ?thesis
    by (simp add: camelCase_pattern_def test_Bol camelCase_shape_def start_def)
next
  case (Cons c cs)
  let ?s1 = "\<lparr>pos = 1, rest = cs, caps = Map.empty\<rparr>"
  have "(concat (map (matches Eol) (matches (Star (Cls alnum)) ?s1)) \<noteq> []) =
        (\<exists>m \<in> set (matches (Star (Cls alnum)) ?s1). rest m = [])"
    by (auto simp: concat_map_nonempty)
  also have "\<dots> = list_all alnum cs"
    using matches_Star_Cls_end[of alnum ?s1] by simp
  finally show ?thesis using Cons
    by (simp add: camelCase_pattern_def test_Bol camelCase_shape_def start_def)
qed

lemma test_camelCase_pattern_nonempty: "test camelCase_pattern str \<Longrightarrow> str \<noteq> []"
  by (auto simp: test_camelCase_pattern camelCase_shape_def)

subsection \<open>Disjoint character classes\<close>

lemma lower_not_upper: "lower_az c \<Longrightarrow> \<not> upper_AZ c"
  by (auto simp: lower_az_def upper_AZ_def word_le_nat_alt)

lemma alnum_not_separator: "alnum c \<Longrightarrow> \<not> separator c"
  by (auto simp: alnum_def lower_az_def upper_AZ_def digit_09_def separator_def white_space_def
      line_terminator_def word_le_nat_alt)

lemma line_terminator_separator: "line_terminator c \<Longrightarrow> separator c"
  by (simp add: separator_def white_space_def)

subsection \<open>The pattern of separator runs\<close>

lemma matches_separators_none:
  "(case rest s of [] \<Rightarrow> True | c # _ \<Rightarrow> \<not> separator c) \<Longrightarrow> matches separators_pattern s = []"
  by (cases "rest s") (simp_all add: separators_pattern_def Plus_def)

text \<open>A run of separators that reaches the end of the input: the group takes no part.\<close>

lemma matches_separators_end:
  assumes "rest s = c # cs" and "separator c" and "dropWhile separator cs = []"
  shows "\<exists>ms. matches separators_pattern s =
           \<lparr>pos = pos s + length (c # cs), rest = [], caps = caps s\<rparr> # ms"
proof -
  let ?s1 = "s\<lparr>pos := pos s + 1, rest := cs\<rparr>"
  let ?n = "length (takeWhile separator cs)"
  obtain ms where ms: "matches (Star (Cls separator)) ?s1 = advance ?n ?s1 # ms"
    using matches_Star_Cls_first[of separator ?s1] by auto
  from assms(3) have all: "takeWhile separator cs = cs"
    by (metis append_Nil2 takeWhile_dropWhile_id)
  have adv: "advance ?n ?s1 = \<lparr>pos = pos s + length (c # cs), rest = [], caps = caps s\<rparr>"
    unfolding all by (cases s) (simp add: advance_def)
  from assms(1,2) ms adv show ?thesis
    by (simp add: separators_pattern_def Plus_def)
qed

text \<open>
  A run of separators before a character \<open>d\<close>: the run is taken whole, and \<open>d\<close>, which
  is no separator and so no line terminator, is the group.
\<close>

lemma matches_separators_char:
  assumes "rest s = c # cs" and "separator c" and "dropWhile separator cs = d # ds"
  shows "\<exists>ms. matches separators_pattern s =
           \<lparr>pos = pos s + length (c # takeWhile separator cs) + 1, rest = ds,
            caps = (caps s)(1 \<mapsto> [d])\<rparr> # ms"
proof -
  let ?s1 = "s\<lparr>pos := pos s + 1, rest := cs\<rparr>"
  let ?n = "length (takeWhile separator cs)"
  obtain ms where ms: "matches (Star (Cls separator)) ?s1 = advance ?n ?s1 # ms"
    using matches_Star_Cls_first[of separator ?s1] by auto
  have "\<not> separator d"
    using assms(3) by (metis hd_dropWhile list.sel(1) list.distinct(1))
  then have d: "any_char d"
    using line_terminator_separator by (auto simp: any_char_def)
  have "drop ?n cs = d # ds"
    using assms(3) by (simp add: dropWhile_eq_drop)
  then have adv: "advance ?n ?s1 = \<lparr>pos = pos s + 1 + ?n, rest = d # ds, caps = caps s\<rparr>"
    by (cases s) (simp add: advance_def)
  from assms(1,2) ms adv d show ?thesis
    by (simp add: separators_pattern_def Plus_def)
qed

subsection \<open>The pattern of a lowercase letter before an uppercase letter\<close>

lemma matches_lower_upper:
  "matches lower_upper_pattern s =
     (case rest s of
        c # d # ds \<Rightarrow>
          if lower_az c \<and> upper_AZ d
          then [\<lparr>pos = pos s + 2, rest = ds, caps = (caps s)(1 \<mapsto> [c], 2 \<mapsto> [d])\<rparr>]
          else []
      | _ \<Rightarrow> [])"
  by (cases s) (simp add: lower_upper_pattern_def split: list.splits)

subsection \<open>Replacing at the start only\<close>

lemma replace_first_Bol_later: "0 < i \<Longrightarrow> replace_first_from (Seq Bol r) f i cs = cs"
proof (induction cs arbitrary: i)
  case Nil
  then show ?case by (subst replace_first_from.simps) (simp add: start_def)
next
  case (Cons c cs)
  from Cons.prems Cons.IH[of "i + 1"] show ?case
    by (subst replace_first_from.simps) (simp add: start_def)
qed

section \<open>The conversions as the specification words them\<close>

text \<open>
  \<^verbatim>\<open>toCamelCase\<close>: each run of hyphens, underscores and white space, together with the
  character behind it, is replaced by that character in upper case; a run with nothing
  behind it is dropped.
\<close>

function upper_after_separators :: "'a casing_scheme \<Rightarrow> jsstring \<Rightarrow> jsstring" where
  "upper_after_separators rt [] = []"
| "upper_after_separators rt (c # cs) =
     (if separator c
      then (case dropWhile separator cs of
              [] \<Rightarrow> []
            | d # ds \<Rightarrow> toUpperCase rt [d] @ upper_after_separators rt ds)
      else c # upper_after_separators rt cs)"
  by pat_completeness auto
termination
proof (relation "measure (\<lambda>(rt, cs). length cs)", goal_cases)
  case 1
  show ?case by simp
next
  case (2 rt c cs d ds)
  have "length (dropWhile separator cs) \<le> length cs" by (rule length_dropWhile_le)
  with 2 show ?case by simp
next
  case (3 rt c cs)
  show ?case by simp
qed

text \<open>Then a leading uppercase letter, if there is one, is put in lower case.\<close>

definition lower_leading_upper :: "'a casing_scheme \<Rightarrow> jsstring \<Rightarrow> jsstring" where
  "lower_leading_upper rt str =
     (case str of
        [] \<Rightarrow> []
      | c # cs \<Rightarrow> if upper_AZ c then toLowerCase rt [c] @ cs else c # cs)"

definition toCamelCase_spec :: "'a casing_scheme \<Rightarrow> jsstring \<Rightarrow> jsstring" where
  "toCamelCase_spec rt str = lower_leading_upper rt (upper_after_separators rt str)"

text \<open>
  \<^verbatim>\<open>toDashCase\<close>: a hyphen goes between every lowercase letter and the uppercase
  letter right behind it; then the whole string is put in lower case.
\<close>

fun insert_hyphens :: "jsstring \<Rightarrow> jsstring" where
  "insert_hyphens (c # d # cs) =
     (if lower_az c \<and> upper_AZ d then c # 0x2D # insert_hyphens (d # cs)
      else c # insert_hyphens (d # cs))"
| "insert_hyphens cs = cs"

definition toDashCase_spec :: "'a casing_scheme \<Rightarrow> jsstring \<Rightarrow> jsstring" where
  "toDashCase_spec rt str = toLowerCase rt (insert_hyphens str)"

section \<open>The source's replacements against the specification's wording\<close>

lemma replace_all_separators:
  "replace_all_from separators_pattern (upper_of_group rt) i cs = upper_after_separators rt cs"
proof (induction cs arbitrary: i rule: length_induct)
  case (1 cs)
  show ?case
  proof (cases cs)
    case Nil
    then show ?thesis
      using matches_separators_none[of "start i []"]
      by (subst replace_all_from.simps) (simp add: start_def)
  next
    case (Cons c cs')
    show ?thesis
    proof (cases "separator c")
      case False
      with Cons have "matches separators_pattern (start i cs) = []"
        using matches_separators_none[of "start i cs"] by (simp add: start_def)
      moreover have "replace_all_from separators_pattern (upper_of_group rt) (i + 1) cs' =
          upper_after_separators rt cs'"
        using 1 Cons by simp
      ultimately show ?thesis using Cons False
        by (subst replace_all_from.simps) simp
    next
      case True
      show ?thesis
      proof (cases "dropWhile separator cs'")
        case Nil
        from matches_separators_end[of "start i cs" c cs'] Cons True Nil
        obtain ms where "matches separators_pattern (start i cs) =
            \<lparr>pos = i + length (c # cs'), rest = [], caps = Map.empty\<rparr> # ms"
          by (auto simp: start_def)
        moreover have "replace_all_from separators_pattern (upper_of_group rt)
            (i + length (c # cs')) [] = []"
          using matches_separators_none[of "start (i + length (c # cs')) []"]
          by (subst replace_all_from.simps) (simp add: start_def)
        ultimately show ?thesis using Cons True Nil
          by (subst replace_all_from.simps)
            (simp add: upper_of_group_def del: dropWhile_eq_Nil_conv)
      next
        case (Cons d ds)
        note dw = this
        from matches_separators_char[of "start i cs" c cs' d ds] \<open>cs = c # cs'\<close> True dw
        obtain ms where m: "matches separators_pattern (start i cs) =
            \<lparr>pos = i + length (c # takeWhile separator cs') + 1, rest = ds,
             caps = [1 \<mapsto> [d]]\<rparr> # ms"
          by (auto simp: start_def)
        have "length (dropWhile separator cs') \<le> length cs'" by (rule length_dropWhile_le)
        with dw \<open>cs = c # cs'\<close> have "length ds < length cs" by simp
        with 1 have "replace_all_from separators_pattern (upper_of_group rt)
            (i + length (c # takeWhile separator cs') + 1) ds = upper_after_separators rt ds"
          by simp
        with m \<open>cs = c # cs'\<close> True dw show ?thesis
          by (subst replace_all_from.simps) (simp add: upper_of_group_def)
      qed
    qed
  qed
qed

lemma replace_first_leading_upper:
  "replace_first leading_upper_pattern (\<lambda>c cps. toLowerCase rt c) str =
     lower_leading_upper rt str"
proof (cases str)
  case Nil
  then show ?thesis
    by (simp add: replace_first_def leading_upper_pattern_def lower_leading_upper_def
        start_def replace_first_from.simps[of _ _ 0])
next
  case (Cons c cs)
  then show ?thesis
    by (simp add: replace_first_def leading_upper_pattern_def lower_leading_upper_def
        start_def replace_first_from.simps[of _ _ 0] replace_first_Bol_later)
qed

lemma convertToCamelCase_eq:
  "convertToCamelCase rt str = lower_leading_upper rt (upper_after_separators rt str)"
  by (simp add: convertToCamelCase_def replace_all_def replace_all_separators
      replace_first_leading_upper)

lemma insert_hyphens_upper: "upper_AZ d \<Longrightarrow> insert_hyphens (d # ds) = d # insert_hyphens ds"
  using lower_not_upper by (cases ds) auto

lemma insert_hyphens_no_pair:
  "(case cs of d # _ \<Rightarrow> \<not> (lower_az c \<and> upper_AZ d) | [] \<Rightarrow> True) \<Longrightarrow>
     insert_hyphens (c # cs) = c # insert_hyphens cs"
  by (cases cs) auto

lemma replace_all_lower_upper:
  "replace_all_from lower_upper_pattern dash_between_groups i cs = insert_hyphens cs"
proof (induction cs arbitrary: i rule: length_induct)
  case (1 cs)
  show ?case
  proof (cases cs)
    case Nil
    then show ?thesis
      by (subst replace_all_from.simps) (simp add: matches_lower_upper start_def)
  next
    case (Cons c cs')
    note cs = this
    show ?thesis
    proof (cases "case cs' of d # _ \<Rightarrow> lower_az c \<and> upper_AZ d | [] \<Rightarrow> False")
      case True
      then obtain d ds where cs': "cs' = d # ds" and c: "lower_az c" and d: "upper_AZ d"
        by (auto split: list.splits)
      have "replace_all_from lower_upper_pattern dash_between_groups (i + 2) ds =
          insert_hyphens ds"
        using 1 cs cs' by simp
      with cs cs' c d show ?thesis
        by (subst replace_all_from.simps)
          (simp add: matches_lower_upper start_def dash_between_groups_def group_def js_def
            insert_hyphens_upper)
    next
      case False
      then have nm: "matches lower_upper_pattern (start i cs) = []"
        using cs by (auto simp: matches_lower_upper start_def split: list.splits)
      have "replace_all_from lower_upper_pattern dash_between_groups (i + 1) cs' =
          insert_hyphens cs'"
        using 1 cs by simp
      moreover have "insert_hyphens (c # cs') = c # insert_hyphens cs'"
        using False by (intro insert_hyphens_no_pair) (auto split: list.splits)
      ultimately show ?thesis using cs nm
        by (subst replace_all_from.simps) simp
    qed
  qed
qed

lemma toDashCase_eq: "toDashCase rt str = toLowerCase rt (insert_hyphens str)"
  by (simp add: toDashCase_def replace_all_def replace_all_lower_upper)

subsection \<open>Where the conversions change nothing or leave nothing\<close>

lemma upper_after_separators_id:
  "list_all (\<lambda>c. \<not> separator c) cs \<Longrightarrow> upper_after_separators rt cs = cs"
  by (induction cs) simp_all

lemma convertToCamelCase_shape: "camelCase_shape str \<Longrightarrow> convertToCamelCase rt str = str"
proof -
  assume sh: "camelCase_shape str"
  then obtain c cs where str: "str = c # cs" and c: "lower_az c" and cs: "list_all alnum cs"
    by (auto simp: camelCase_shape_def split: list.splits)
  have "\<not> separator c" using c alnum_not_separator by (auto simp: alnum_def)
  moreover have "list_all (\<lambda>c. \<not> separator c) cs"
    using cs alnum_not_separator by (auto simp: list_all_iff)
  ultimately have "upper_after_separators rt str = str"
    using str by (simp add: upper_after_separators_id)
  moreover have "lower_leading_upper rt str = str"
    using str c lower_not_upper by (simp add: lower_leading_upper_def)
  ultimately show ?thesis by (simp add: convertToCamelCase_eq)
qed

lemma upper_after_separators_empty:
  assumes "\<And>c. toUpperCase rt [c] \<noteq> []"
  shows "(upper_after_separators rt cs = []) = list_all separator cs"
  using assms
proof (induction rt cs rule: upper_after_separators.induct)
  case (1 rt)
  show ?case by simp
next
  case (2 rt c cs)
  note up = "2.prems"
  show ?case
  proof (cases "separator c")
    case False
    then show ?thesis by simp
  next
    case True
    show ?thesis
    proof (cases "dropWhile separator cs")
      case Nil
      then have "list_all separator cs" by (simp add: list_all_iff)
      with True Nil show ?thesis by (simp del: dropWhile_eq_Nil_conv)
    next
      case (Cons d ds)
      then have "\<not> list_all separator cs"
        by (metis dropWhile_eq_Nil_conv list.distinct(1) list_all_iff)
      with True Cons up show ?thesis by simp
    qed
  qed
qed

lemma lower_leading_upper_empty:
  assumes "\<And>c. toLowerCase rt [c] \<noteq> []"
  shows "(lower_leading_upper rt str = []) = (str = [])"
  using assms by (cases str) (simp_all add: lower_leading_upper_def)

lemma convertToCamelCase_empty:
  assumes "\<And>c. toUpperCase rt [c] \<noteq> []" and "\<And>c. toLowerCase rt [c] \<noteq> []"
  shows "(convertToCamelCase rt str = []) = list_all separator str"
  using assms
  by (simp add: convertToCamelCase_eq lower_leading_upper_empty upper_after_separators_empty)

lemma insert_hyphens_no_upper:
  "\<forall>c \<in> set cs. \<not> upper_AZ c \<Longrightarrow> insert_hyphens cs = cs"
  by (induction cs rule: insert_hyphens.induct) auto

lemma toDashCase_twice:
  assumes "\<And>s. toLowerCase rt (toLowerCase rt s) = toLowerCase rt s"
    and "\<And>s c. c \<in> set (toLowerCase rt s) \<Longrightarrow> \<not> upper_AZ c"
  shows "toDashCase rt (toDashCase rt y) = toDashCase rt y"
proof -
  have "insert_hyphens (toLowerCase rt (insert_hyphens y)) = toLowerCase rt (insert_hyphens y)"
    using assms(2) by (intro insert_hyphens_no_upper) blast
  with assms(1) show ?thesis by (simp add: toDashCase_eq)
qed

subsection \<open>The Basic Latin case mappings\<close>

lemma unat_plus_32:
  assumes "c \<le> (0x5A :: cu)"
  shows "unat (c + 0x20) = unat c + 32"
proof -
  from assms have "unat c \<le> 90" by (simp add: word_le_nat_alt)
  then have "unat c + unat (0x20 :: cu) < 2 ^ LENGTH(16)" by simp
  then have "unat (c + 0x20) = unat c + unat (0x20 :: cu)"
    by (simp only: unat_add_lem)
  then show ?thesis by simp
qed

lemma upper_plus_32_not_upper: "upper_AZ c \<Longrightarrow> \<not> upper_AZ (c + 0x20)"
  by (simp add: upper_AZ_def word_le_nat_alt unat_plus_32)

lemma basic_latin_lower_no_upper: "c \<in> set (toLowerCase basic_latin s) \<Longrightarrow> \<not> upper_AZ c"
  by (auto simp: basic_latin_def upper_plus_32_not_upper split: if_splits)

lemma basic_latin_lower_idem:
  "toLowerCase basic_latin (toLowerCase basic_latin s) = toLowerCase basic_latin s"
  by (simp add: basic_latin_def upper_plus_32_not_upper)

lemma basic_latin_nonempty:
  "toUpperCase basic_latin [c] \<noteq> [] \<and> toLowerCase basic_latin [c] \<noteq> []"
  by (simp add: basic_latin_def)

section \<open>Properties of validate\<close>

text \<open>
  C1. For every string that matches the pattern \<^verbatim>\<open>^[a-z][a-zA-Z0-9]*$\<close>,
  \<^verbatim>\<open>validate\<close> returns a valid result whose \<^verbatim>\<open>value\<close> is the input string
  unchanged, with no message and no suggestion.
\<close>

theorem validate_accepts_matching_name:
  "test camelCase_pattern name \<Longrightarrow>
     validate rt (Some name) =
       \<lparr>valid = True, value = Some name, message = None, suggestion = None\<rparr>"
proof -
  assume m: "test camelCase_pattern name"
  then have "name \<noteq> []" by (rule test_camelCase_pattern_nonempty)
  with m show ?thesis by (simp add: validate_def)
qed

theorem validate_accepts_matching_name_witness:
  "test camelCase_pattern (js ''userProfile'') \<and>
   validate basic_latin (Some (js ''userProfile'')) =
     \<lparr>valid = True, value = Some (js ''userProfile''), message = None, suggestion = None\<rparr>"
proof -
  have h: "test camelCase_pattern (js ''userProfile'')" by code_simp
  show ?thesis
    using h validate_accepts_matching_name[OF h, of basic_latin] by simp
qed

text \<open>
  C2. \<^verbatim>\<open>validate\<close> fails in exactly two ways. For an empty or absent name the result
  is invalid with the message "Component name is required" and no suggestion. For a
  non-empty name that does not match the pattern the result is invalid with the message
  "Component name must be camelCase" and the suggestion \<^verbatim>\<open>convertToCamelCase(name)\<close>.
  An invalid result comes from one of these two cases.
\<close>

theorem validate_fails_in_two_ways:
  "(name = None \<or> name = Some [] \<longrightarrow>
      validate rt name =
        \<lparr>valid = False, value = None,
         message = Some (js ''Component name is required''), suggestion = None\<rparr>) \<and>
   (\<forall>n. name = Some n \<and> n \<noteq> [] \<and> \<not> test camelCase_pattern n \<longrightarrow>
      validate rt name =
        \<lparr>valid = False, value = None,
         message = Some (js ''Component name must be camelCase''),
         suggestion = Some (convertToCamelCase rt n)\<rparr>) \<and>
   (\<not> valid (validate rt name) \<longrightarrow>
      name = None \<or> name = Some [] \<or>
      (\<exists>n. name = Some n \<and> n \<noteq> [] \<and> \<not> test camelCase_pattern n))"
  by (cases name) (auto simp: validate_def)

theorem validate_fails_in_two_ways_witness:
  "validate basic_latin None =
     \<lparr>valid = False, value = None,
      message = Some (js ''Component name is required''), suggestion = None\<rparr> \<and>
   validate basic_latin (Some (js ''user-profile'')) =
     \<lparr>valid = False, value = None,
      message = Some (js ''Component name must be camelCase''),
      suggestion = Some (convertToCamelCase basic_latin (js ''user-profile''))\<rparr> \<and>
   convertToCamelCase basic_latin (js ''user-profile'') = js ''userProfile''"
proof -
  have h: "js ''user-profile'' \<noteq> [] \<and> \<not> test camelCase_pattern (js ''user-profile'')"
    by code_simp
  have c: "convertToCamelCase basic_latin (js ''user-profile'') = js ''userProfile''"
    by code_simp
  show ?thesis
    using h c validate_fails_in_two_ways[of None basic_latin]
      validate_fails_in_two_ways[of "Some (js ''user-profile'')" basic_latin]
    by simp
qed

section \<open>Properties of the conversions\<close>

text \<open>
  C3. For every input string, \<^verbatim>\<open>toCamelCase\<close> replaces each run of hyphen, underscore
  and whitespace characters together with the single character following it (if any) by
  that character upper-cased, drops a trailing run with no following character, and then
  lower-cases a single leading uppercase letter if one is present.
\<close>

theorem convertToCamelCase_refines_spec:
  "convertToCamelCase rt str = toCamelCase_spec rt str"
  by (simp add: convertToCamelCase_eq toCamelCase_spec_def)

theorem convertToCamelCase_refines_spec_witness:
  "convertToCamelCase basic_latin (js ''  My__big-component_ '') = js ''myBigComponent'' \<and>
   toCamelCase_spec basic_latin (js ''  My__big-component_ '') = js ''myBigComponent''"
proof -
  have "toCamelCase_spec basic_latin (js ''  My__big-component_ '') = js ''myBigComponent''"
    by code_simp
  then show ?thesis
    using convertToCamelCase_refines_spec[of basic_latin "js ''  My__big-component_ ''"]
    by simp
qed

text \<open>
  C4. For every input string, \<^verbatim>\<open>toDashCase\<close> inserts a hyphen between every adjacent
  pair of a lowercase letter followed by an uppercase letter, and then lower-cases the
  whole resulting string.
\<close>

theorem toDashCase_refines_spec:
  "toDashCase rt str = toDashCase_spec rt str"
  by (simp add: toDashCase_eq toDashCase_spec_def)

theorem toDashCase_refines_spec_witness:
  "toDashCase basic_latin (js ''myBigComponentX2'') = js ''my-big-component-x2'' \<and>
   toDashCase_spec basic_latin (js ''myBigComponentX2'') = js ''my-big-component-x2''"
proof -
  have "toDashCase_spec basic_latin (js ''myBigComponentX2'') = js ''my-big-component-x2''"
    by code_simp
  then show ?thesis
    using toDashCase_refines_spec[of basic_latin "js ''myBigComponentX2''"]
    by simp
qed

text \<open>
  C10. For every string that already matches the pattern \<^verbatim>\<open>^[a-z][a-zA-Z0-9]*$\<close>,
  \<^verbatim>\<open>toCamelCase\<close> returns the string unchanged.
\<close>

theorem convertToCamelCase_identity_on_valid:
  "test camelCase_pattern str \<Longrightarrow> convertToCamelCase rt str = str"
  by (simp add: test_camelCase_pattern convertToCamelCase_shape)

theorem convertToCamelCase_identity_on_valid_witness:
  "test camelCase_pattern (js ''userProfile2'') \<and>
   convertToCamelCase basic_latin (js ''userProfile2'') = js ''userProfile2''"
proof -
  have h: "test camelCase_pattern (js ''userProfile2'')" by code_simp
  show ?thesis
    using h convertToCamelCase_identity_on_valid[OF h, of basic_latin] by simp
qed

text \<open>
  C9. For every string \<open>x\<close>, applying \<^verbatim>\<open>toDashCase\<close> a second time to
  \<^verbatim>\<open>toDashCase(toCamelCase(x))\<close> returns that result unchanged. The property rests on
  two facts about \<^verbatim>\<open>toLowerCase\<close> of the runtime: lower-casing twice is lower-casing
  once, and a lower-cased string holds none of the letters A to Z.
\<close>

theorem toDashCase_idempotent_on_output:
  assumes "\<forall>s. toLowerCase rt (toLowerCase rt s) = toLowerCase rt s"
    and "\<forall>s. \<forall>c \<in> set (toLowerCase rt s). \<not> upper_AZ c"
  shows "toDashCase rt (toDashCase rt (convertToCamelCase rt x)) =
         toDashCase rt (convertToCamelCase rt x)"
  using assms by (intro toDashCase_twice) auto

theorem toDashCase_idempotent_on_output_witness:
  "toDashCase basic_latin (convertToCamelCase basic_latin (js ''User_profile-card'')) =
     js ''user-profile-card'' \<and>
   toDashCase basic_latin (js ''user-profile-card'') = js ''user-profile-card''"
proof -
  have a: "\<forall>s. toLowerCase basic_latin (toLowerCase basic_latin s) = toLowerCase basic_latin s"
    by (simp add: basic_latin_lower_idem)
  have b: "\<forall>s. \<forall>c \<in> set (toLowerCase basic_latin s). \<not> upper_AZ c"
    using basic_latin_lower_no_upper by blast
  have c: "toDashCase basic_latin (convertToCamelCase basic_latin (js ''User_profile-card'')) =
      js ''user-profile-card''"
    by code_simp
  show ?thesis
    using c toDashCase_idempotent_on_output[OF a b, of "js ''User_profile-card''"] by simp
qed

text \<open>
  C5, as the code has it. For every non-empty input string that does not match the
  pattern, \<^verbatim>\<open>validate\<close> returns an invalid result whose suggestion is
  \<^verbatim>\<open>convertToCamelCase\<close> of the input; the suggestion is non-empty exactly when the
  input holds a character that is no hyphen, underscore or whitespace. (The case mappings
  of the runtime never turn a string of one code unit into the empty string.)
\<close>

theorem validate_suggestion_nonempty_iff:
  assumes "\<forall>c. toUpperCase rt [c] \<noteq> []" and "\<forall>c. toLowerCase rt [c] \<noteq> []"
    and "str \<noteq> []" and "\<not> test camelCase_pattern str"
  shows "\<not> valid (validate rt (Some str)) \<and>
         suggestion (validate rt (Some str)) = Some (convertToCamelCase rt str) \<and>
         (convertToCamelCase rt str \<noteq> [] \<longleftrightarrow> (\<exists>c \<in> set str. \<not> separator c))"
proof -
  from assms(3,4) have
    "\<not> valid (validate rt (Some str)) \<and>
     suggestion (validate rt (Some str)) = Some (convertToCamelCase rt str)"
    by (simp add: validate_def)
  moreover from assms(1,2) have "(convertToCamelCase rt str = []) = list_all separator str"
    by (intro convertToCamelCase_empty) auto
  ultimately show ?thesis by (auto simp: list_all_iff)
qed

theorem validate_suggestion_nonempty_iff_witness:
  "js ''9 lives'' \<noteq> [] \<and> \<not> test camelCase_pattern (js ''9 lives'') \<and>
   (\<exists>c \<in> set (js ''9 lives''). \<not> separator c) \<and>
   suggestion (validate basic_latin (Some (js ''9 lives''))) =
     Some (convertToCamelCase basic_latin (js ''9 lives'')) \<and>
   convertToCamelCase basic_latin (js ''9 lives'') \<noteq> []"
proof -
  have a: "\<forall>c. toUpperCase basic_latin [c] \<noteq> []" by (simp add: basic_latin_nonempty)
  have b: "\<forall>c. toLowerCase basic_latin [c] \<noteq> []" by (simp add: basic_latin_nonempty)
  have c: "js ''9 lives'' \<noteq> []" by code_simp
  have d: "\<not> test camelCase_pattern (js ''9 lives'')" by code_simp
  have e: "\<exists>c \<in> set (js ''9 lives''). \<not> separator c" by code_simp
  show ?thesis
    using c d e validate_suggestion_nonempty_iff[OF a b c d] by simp
qed

text \<open>
  C5, as the specification states it, fails: the name \<^verbatim>\<open>-\<close> is non-empty and does not
  match the pattern, and its suggestion is the empty string.
\<close>

theorem validate_suggestion_empty_counterexample:
  "js ''-'' \<noteq> [] \<and> \<not> test camelCase_pattern (js ''-'') \<and>
   validate basic_latin (Some (js ''-'')) =
     \<lparr>valid = False, value = None,
      message = Some (js ''Component name must be camelCase''), suggestion = Some []\<rparr>"
  by code_simp

section \<open>Properties of create\<close>

text \<open>
  C6. If the target directory \<^verbatim>\<open>toDashCase(identifier)\<close> already exists under the
  current working directory, \<^verbatim>\<open>create\<close> ends the process with the exit status 1 and
  leaves the file system as it was: no directory is made and no file is written.
\<close>

theorem create_existing_directory:
  "existsSync rt w (path_join rt (cwd rt) (toDashCase rt ident)) \<Longrightarrow>
     create rt (ComponentGenerator rt ident lang) w = (Exited 1, w)"
  by (simp add: create_def ComponentGenerator_def)

theorem create_existing_directory_witness:
  "existsSync small_node \<lparr>dirs = [js ''/work'', js ''/work/user-profile''], written = []\<rparr>
     (path_join small_node (cwd small_node) (toDashCase small_node (js ''userProfile''))) \<and>
   create small_node (ComponentGenerator small_node (js ''userProfile'') (Some (js ''ts'')))
     \<lparr>dirs = [js ''/work'', js ''/work/user-profile''], written = []\<rparr> =
   (Exited 1, \<lparr>dirs = [js ''/work'', js ''/work/user-profile''], written = []\<rparr>)"
proof -
  have h: "existsSync small_node \<lparr>dirs = [js ''/work'', js ''/work/user-profile''], written = []\<rparr>
     (path_join small_node (cwd small_node) (toDashCase small_node (js ''userProfile'')))"
    by code_simp
  show ?thesis
    using h create_existing_directory[OF h, of "Some (js ''ts'')"] by simp
qed

text \<open>
  C7. On a successful run, \<^verbatim>\<open>create\<close> writes exactly three files into the newly
  created dash-case directory, in this order: \<^verbatim>\<open><identifier>.component.<language>\<close>
  with the template of the language, \<^verbatim>\<open><identifier>.component.html\<close> with a single
  \<^verbatim>\<open>div\<close> that interpolates the title, and \<^verbatim>\<open><identifier>.component.style.html\<close>
  with an empty style block; nothing else is written. Stated on the calls of the file
  system: a run completes exactly when the directory does not exist yet and
  \<^verbatim>\<open>mkdirSync\<close> and these three writes succeed one after the other, and the file
  system it leaves is the one the third write returns.
\<close>

theorem create_writes_three_files:
  "create rt (ComponentGenerator rt ident (Some lang)) w = (Completed, w') \<longleftrightarrow>
     \<not> existsSync rt w (path_join rt (cwd rt) (toDashCase rt ident)) \<and>
     (\<exists>w0 w1 w2.
        mkdirSync rt w (path_join rt (cwd rt) (toDashCase rt ident)) = Inr w0 \<and>
        writeFileSync rt w0
          (path_join rt (path_join rt (cwd rt) (toDashCase rt ident))
             (ident @ js ''.component.'' @ lang))
          (if lang = js ''ts''
           then generateTsContent (ComponentGenerator rt ident (Some lang))
           else generateJsContent (ComponentGenerator rt ident (Some lang))) = Inr w1 \<and>
        writeFileSync rt w1
          (path_join rt (path_join rt (cwd rt) (toDashCase rt ident))
             (ident @ js ''.component.html''))
          (js ''<div>{{title}}</div>'') = Inr w2 \<and>
        writeFileSync rt w2
          (path_join rt (path_join rt (cwd rt) (toDashCase rt ident))
             (ident @ js ''.component.style.html''))
          (js ''<style></style>'') = Inr w')"
  by (auto simp: create_def ComponentGenerator_def files_def generateHtmlContent_def
      generateStyleContent_def Let_def split: sum.splits)

theorem create_writes_three_files_witness:
  \<open>create small_node (ComponentGenerator small_node (js ''userProfile'') (Some (js ''js''))) \<lparr>dirs = [js ''/work''], written = []\<rparr> =
     (Completed,
      \<lparr>dirs = [js ''/work'', js ''/work/user-profile''],
      written =
        [(js ''/work/user-profile/userProfile.component.js'',
          generateJsContent (ComponentGenerator small_node (js ''userProfile'') (Some (js ''js'')))),
         (js ''/work/user-profile/userProfile.component.html'', js ''<div>{{title}}</div>''),
         (js ''/work/user-profile/userProfile.component.style.html'', js ''<style></style>'')]\<rparr>) \<and>
   \<not> existsSync small_node \<lparr>dirs = [js ''/work''], written = []\<rparr> (path_join small_node (cwd small_node) (toDashCase small_node (js ''userProfile''))) \<and>
     (\<exists>w0 w1 w2.
        mkdirSync small_node \<lparr>dirs = [js ''/work''], written = []\<rparr> (path_join small_node (cwd small_node) (toDashCase small_node (js ''userProfile''))) = Inr w0 \<and>
        writeFileSync small_node w0
          (path_join small_node (path_join small_node (cwd small_node) (toDashCase small_node (js ''userProfile'')))
             (js ''userProfile'' @ js ''.component.'' @ js ''js''))
          (if js ''js'' = js ''ts''
           then generateTsContent (ComponentGenerator small_node (js ''userProfile'') (Some (js ''js'')))
           else generateJsContent (ComponentGenerator small_node (js ''userProfile'') (Some (js ''js'')))) = Inr w1 \<and>
        writeFileSync small_node w1
          (path_join small_node (path_join small_node (cwd small_node) (toDashCase small_node (js ''userProfile'')))
             (js ''userProfile'' @ js ''.component.html''))
          (js ''<div>{{title}}</div>'') = Inr w2 \<and>
        writeFileSync small_node w2
          (path_join small_node (path_join small_node (cwd small_node) (toDashCase small_node (js ''userProfile'')))
             (js ''userProfile'' @ js ''.component.style.html''))
          (js ''<style></style>'') =
        Inr \<lparr>dirs = [js ''/work'', js ''/work/user-profile''],
      written =
        [(js ''/work/user-profile/userProfile.component.js'',
          generateJsContent (ComponentGenerator small_node (js ''userProfile'') (Some (js ''js'')))),
         (js ''/work/user-profile/userProfile.component.html'', js ''<div>{{title}}</div>''),
         (js ''/work/user-profile/userProfile.component.style.html'', js ''<style></style>'')]\<rparr>)\<close>
proof -
  have c: \<open>create small_node (ComponentGenerator small_node (js ''userProfile'') (Some (js ''js''))) \<lparr>dirs = [js ''/work''], written = []\<rparr> =
     (Completed,
      \<lparr>dirs = [js ''/work'', js ''/work/user-profile''],
      written =
        [(js ''/work/user-profile/userProfile.component.js'',
          generateJsContent (ComponentGenerator small_node (js ''userProfile'') (Some (js ''js'')))),
         (js ''/work/user-profile/userProfile.component.html'', js ''<div>{{title}}</div>''),
         (js ''/work/user-profile/userProfile.component.style.html'', js ''<style></style>'')]\<rparr>)\<close>
    by code_simp
  note r = create_writes_three_files[THEN iffD1, OF c]
  show ?thesis by (rule conjI[OF c r])
qed

section \<open>Properties of the command line\<close>

lemma parseArgs_loop_bad_language:
  assumes "Suc i < length args"
    and "args ! i = js ''-l'' \<or> args ! i = js ''--language''"
    and "toLowerCase rt (args ! Suc i) \<noteq> js ''js''"
    and "toLowerCase rt (args ! Suc i) \<noteq> js ''ts''"
  shows "parseArgs_loop rt args cn lang = Inl 1"
  using assms
proof (induction args arbitrary: i cn lang)
  case Nil
  then show ?case by simp
next
  case (Cons a others)
  show ?case
  proof (cases i)
    case 0
    with Cons.prems obtain b bs where "others = b # bs" by (cases others) auto
    with 0 Cons.prems show ?thesis by (simp add: Let_def)
  next
    case (Suc j)
    with Cons.prems have "\<And>cn lang. parseArgs_loop rt others cn lang = Inl 1"
      by (intro Cons.IH[of j]) auto
    then show ?thesis by (simp add: Let_def split: list.splits)
  qed
qed

lemma parseArgs_loop_no_language:
  "\<forall>a \<in> set args. a \<noteq> js ''-l'' \<and> a \<noteq> js ''--language'' \<Longrightarrow>
     \<exists>cn'. parseArgs_loop rt args cn lang = Inr (cn', lang)"
  by (induction args arbitrary: cn) (simp_all add: Let_def)

text \<open>
  C8. For every value of the \<^verbatim>\<open>-l\<close>/\<^verbatim>\<open>--language\<close> flag that is not, in lower
  case, \<^verbatim>\<open>ts\<close> or \<^verbatim>\<open>js\<close>, the process exits with the status 1 and the file
  system is as it was: no directory or file has been created. When the flag is omitted
  the language is \<^verbatim>\<open>ts\<close>.
\<close>

theorem invalid_language_exits_default_ts:
  "(2 \<le> i \<and> Suc i < length argv \<and>
    (argv ! i = js ''-l'' \<or> argv ! i = js ''--language'') \<and>
    toLowerCase rt (argv ! Suc i) \<noteq> js ''ts'' \<and>
    toLowerCase rt (argv ! Suc i) \<noteq> js ''js''
    \<longrightarrow> main rt argv w = (Exited 1, w)) \<and>
   ((\<forall>a \<in> set (drop 2 argv). a \<noteq> js ''-l'' \<and> a \<noteq> js ''--language'')
    \<longrightarrow> (\<exists>cn. parseArgs rt argv = Inr (cn, js ''ts'')))"
proof (intro conjI impI)
  assume h: "2 \<le> i \<and> Suc i < length argv \<and>
    (argv ! i = js ''-l'' \<or> argv ! i = js ''--language'') \<and>
    toLowerCase rt (argv ! Suc i) \<noteq> js ''ts'' \<and>
    toLowerCase rt (argv ! Suc i) \<noteq> js ''js''"
  then obtain j where i: "i = Suc (Suc j)"
    by (cases i rule: nat.exhaust; cases "i - 1" rule: nat.exhaust) auto
  from h have "parseArgs_loop rt (drop 2 argv) None (js ''ts'') = Inl 1"
    unfolding i by (intro parseArgs_loop_bad_language[of j]) auto
  then show "main rt argv w = (Exited 1, w)"
    by (simp add: main_def parseArgs_def)
next
  assume "\<forall>a \<in> set (drop 2 argv). a \<noteq> js ''-l'' \<and> a \<noteq> js ''--language''"
  then show "\<exists>cn. parseArgs rt argv = Inr (cn, js ''ts'')"
    unfolding parseArgs_def by (rule parseArgs_loop_no_language)
qed

theorem invalid_language_exits_default_ts_witness:
  "main small_node
     [js ''node'', js ''index.js'', js ''-n'', js ''userProfile'', js ''-l'', js ''xx'']
     \<lparr>dirs = [js ''/work''], written = []\<rparr> =
   (Exited 1, \<lparr>dirs = [js ''/work''], written = []\<rparr>) \<and>
   (\<exists>cn. parseArgs small_node [js ''node'', js ''index.js'', js ''-n'', js ''userProfile''] =
      Inr (cn, js ''ts''))"
proof -
  let ?bad = "[js ''node'', js ''index.js'', js ''-n'', js ''userProfile'', js ''-l'', js ''xx'']"
  let ?none = "[js ''node'', js ''index.js'', js ''-n'', js ''userProfile'']"
  have a: "2 \<le> (4::nat) \<and> Suc 4 < length ?bad \<and>
    (?bad ! 4 = js ''-l'' \<or> ?bad ! 4 = js ''--language'') \<and>
    toLowerCase small_node (?bad ! Suc 4) \<noteq> js ''ts'' \<and>
    toLowerCase small_node (?bad ! Suc 4) \<noteq> js ''js''"
    by code_simp
  have b: "\<forall>a \<in> set (drop 2 ?none). a \<noteq> js ''-l'' \<and> a \<noteq> js ''--language''"
    by code_simp
  from a invalid_language_exits_default_ts[of 4 ?bad small_node
      "\<lparr>dirs = [js ''/work''], written = []\<rparr>"]
  have "main small_node ?bad \<lparr>dirs = [js ''/work''], written = []\<rparr> =
      (Exited 1, \<lparr>dirs = [js ''/work''], written = []\<rparr>)"
    by blast
  moreover from b invalid_language_exits_default_ts[of 4 ?none small_node
      "\<lparr>dirs = [js ''/work''], written = []\<rparr>"]
  have "\<exists>cn. parseArgs small_node ?none = Inr (cn, js ''ts'')"
    by blast
  ultimately show ?thesis by (rule conjI)
qed

end
